theory Spec2Isabelle
  imports Complex_Main "HOL-Library.Word"
begin

section \<open>Images, canvases and the browser\<close>

text \<open>
  A pixel is four 8-bit channels, as a 2D canvas stores them. A decoded image is its natural
  size and its pixels; a canvas is its size and its pixels. Pixel data is a function of the
  column and the row, so that a 1600 by 1200 surface costs nothing to write down.
\<close>

type_synonym byte = "8 word"

datatype rgba = RGBA (red: byte) (green: byte) (blue: byte) (alpha: byte)

record bitmap =
  naturalWidth :: nat
  naturalHeight :: nat
  pixelAt :: "nat \<Rightarrow> nat \<Rightarrow> rgba"

record canvas =
  width :: nat
  height :: nat
  pixels :: "nat \<Rightarrow> nat \<Rightarrow> rgba"

text \<open>What assigning \<open>src\<close> of an \<open>Image\<close> ends in: \<open>onload\<close> with the decoded picture,
  \<open>onerror\<close>, or neither (a decode that never finishes).\<close>

datatype outcome = Decoded bitmap | Undecodable | Hangs

text \<open>
  The parts of the browser the program calls but does not contain: the image decoder, whether
  \<open>getContext("2d")\<close> hands out a context, the filter \<open>drawImage\<close> uses to scale a picture to a
  destination size (\<open>resample br b dw dh u v\<close> is the pixel at column \<open>u\<close>, row \<open>v\<close> of \<open>b\<close>
  scaled to \<open>dw\<close> by \<open>dh\<close>), the blending of a partly transparent pixel over another, and which
  of two decodes started together finishes first.
\<close>

record browser =
  decode :: "string \<Rightarrow> outcome"
  getContext2d :: bool
  resample :: "bitmap \<Rightarrow> nat \<Rightarrow> nat \<Rightarrow> nat \<Rightarrow> nat \<Rightarrow> rgba"
  mix :: "rgba \<Rightarrow> rgba \<Rightarrow> rgba"
  templateFirst :: "string \<Rightarrow> string \<Rightarrow> bool"

datatype ('e, 'a) promise = Pending | Resolved 'a | Rejected 'e

definition transparentBlack :: rgba where
  "transparentBlack = RGBA 0 0 0 0"

text \<open>Source-over compositing: an opaque source pixel replaces the destination, a fully
  transparent one leaves it, anything between is the browser's blend.\<close>

definition sourceOver :: "(rgba \<Rightarrow> rgba \<Rightarrow> rgba) \<Rightarrow> rgba \<Rightarrow> rgba \<Rightarrow> rgba" where
  "sourceOver m s d = (if alpha s = 255 then s else if alpha s = 0 then d else m s d)"

text \<open>The picture stretched to \<open>dw\<close> by \<open>dh\<close>; a picture or a destination without area has no
  pixels to give.\<close>

definition stretched :: "browser \<Rightarrow> bitmap \<Rightarrow> nat \<Rightarrow> nat \<Rightarrow> nat \<Rightarrow> nat \<Rightarrow> rgba option" where
  "stretched br b dw dh u v =
     (if naturalWidth b = 0 \<or> naturalHeight b = 0 \<or> dw = 0 \<or> dh = 0 then None
      else Some (resample br b dw dh u v))"

text \<open>\<open>ctx.drawImage(image, dx, dy, dw, dh)\<close>: the image scaled to the destination rectangle
  and composited over what the canvas holds, clipped to the canvas. An \<open>Image\<close> that holds no
  decoded picture draws nothing.\<close>

definition drawImage ::
  "browser \<Rightarrow> bitmap option \<Rightarrow> nat \<Rightarrow> nat \<Rightarrow> nat \<Rightarrow> nat \<Rightarrow> canvas \<Rightarrow> canvas" where
  "drawImage br img dx dy dw dh c =
     (case img of
        None \<Rightarrow> c
      | Some b \<Rightarrow>
          c\<lparr>pixels := (\<lambda>x y.
              if dx \<le> x \<and> x < dx + dw \<and> dy \<le> y \<and> y < dy + dh \<and> x < width c \<and> y < height c
              then (case stretched br b dw dh (x - dx) (y - dy) of
                      None \<Rightarrow> pixels c x y
                    | Some s \<Rightarrow> sourceOver (mix br) s (pixels c x y))
              else pixels c x y)\<rparr>)"

text \<open>\<open>canvas.toDataURL("image/png", 1.0)\<close>: PNG is lossless, so the data URL is identified
  with the picture it encodes, the canvas as it is at the call.\<close>

definition toDataURL :: "canvas \<Rightarrow> bitmap" where
  "toDataURL c = \<lparr>naturalWidth = width c, naturalHeight = height c, pixelAt = pixels c\<rparr>"

section \<open>createHighQualityPoster\<close>

datatype img_id = CroppedImage | TemplateImage

text \<open>The two callbacks an \<open>Image\<close> can fire. \<open>OnLoad\<close> carries the decoded picture the
  element holds from then on.\<close>

datatype event = OnLoad img_id bitmap | OnError img_id

fun event_img :: "event \<Rightarrow> img_id" where
  "event_img (OnLoad i b) = i"
| "event_img (OnError i) = i"

text \<open>What the promise is rejected with: the error event of an image, or the message string.\<close>

datatype reason = ErrorEvent img_id | Message string

text \<open>One \<open>drawImage\<close> call, as it is logged: the picture and the destination rectangle.\<close>

datatype draw = DrawImage "bitmap option" nat nat nat nat

text \<open>The variables of one call: the canvas, its context (if any), the two image elements,
  the counter, the promise, and the log of the draws made so far.\<close>

record poster_call =
  posterCanvas :: canvas
  ctx :: bool
  croppedImageEl :: "bitmap option"
  templateImageEl :: "bitmap option"
  imagesLoaded :: nat
  settled :: "(reason, bitmap) promise"
  drawn :: "draw list"

definition totalImages :: nat where
  "totalImages = 2"

text \<open>Setting the size of a canvas clears it to transparent black.\<close>

definition blankCanvas :: "nat \<Rightarrow> nat \<Rightarrow> canvas" where
  "blankCanvas w h = \<lparr>width = w, height = h, pixels = (\<lambda>x y. transparentBlack)\<rparr>"

text \<open>Lines 24 to 40: the canvas gets its fixed size from the aspect ratio alone.\<close>

definition newCall :: "browser \<Rightarrow> rat \<Rightarrow> poster_call" where
  "newCall br aspectRatio =
     \<lparr>posterCanvas = (if aspectRatio = 3 / 4 then blankCanvas 1200 1600 else blankCanvas 1600 1200),
      ctx = getContext2d br,
      croppedImageEl = None,
      templateImageEl = None,
      imagesLoaded = 0,
      settled = Pending,
      drawn = []\<rparr>"

text \<open>\<open>resolve\<close> and \<open>reject\<close> settle a pending promise and do nothing to a settled one.\<close>

definition resolve :: "bitmap \<Rightarrow> poster_call \<Rightarrow> poster_call" where
  "resolve v s = (case settled s of Pending \<Rightarrow> s\<lparr>settled := Resolved v\<rparr> | _ \<Rightarrow> s)"

definition reject :: "reason \<Rightarrow> poster_call \<Rightarrow> poster_call" where
  "reject e s = (case settled s of Pending \<Rightarrow> s\<lparr>settled := Rejected e\<rparr> | _ \<Rightarrow> s)"

definition ctxDrawImage :: "browser \<Rightarrow> bitmap option \<Rightarrow> poster_call \<Rightarrow> poster_call" where
  "ctxDrawImage br img s =
     s\<lparr>posterCanvas :=
          drawImage br img 0 0 (width (posterCanvas s)) (height (posterCanvas s)) (posterCanvas s),
       drawn := drawn s @ [DrawImage img 0 0 (width (posterCanvas s)) (height (posterCanvas s))]\<rparr>"

text \<open>Lines 42 to 69.\<close>

definition onImageLoad :: "browser \<Rightarrow> poster_call \<Rightarrow> poster_call" where
  "onImageLoad br s =
     (let s1 = s\<lparr>imagesLoaded := imagesLoaded s + 1\<rparr> in
      if imagesLoaded s1 = totalImages then
        if \<not> ctx s1 then reject (Message ''Canvas context not available'') s1
        else
          let s2 = ctxDrawImage br (croppedImageEl s1) s1;
              s3 = ctxDrawImage br (templateImageEl s2) s2
          in resolve (toDataURL (posterCanvas s3)) s3
      else s1)"

text \<open>Lines 71 to 77: both images have \<open>onload = onImageLoad\<close> and \<open>onerror = reject\<close>.\<close>

fun fire :: "browser \<Rightarrow> poster_call \<Rightarrow> event \<Rightarrow> poster_call" where
  "fire br s (OnLoad CroppedImage b) = onImageLoad br (s\<lparr>croppedImageEl := Some b\<rparr>)"
| "fire br s (OnLoad TemplateImage b) = onImageLoad br (s\<lparr>templateImageEl := Some b\<rparr>)"
| "fire br s (OnError i) = reject (ErrorEvent i) s"

definition run :: "browser \<Rightarrow> poster_call \<Rightarrow> event list \<Rightarrow> poster_call" where
  "run br s es = foldl (fire br) s es"

text \<open>The events the two assignments to \<open>src\<close> lead to, in the order they arrive.\<close>

fun eventOf :: "img_id \<Rightarrow> outcome \<Rightarrow> event list" where
  "eventOf i (Decoded b) = [OnLoad i b]"
| "eventOf i Undecodable = [OnError i]"
| "eventOf i Hangs = []"

definition schedule :: "browser \<Rightarrow> string \<Rightarrow> string \<Rightarrow> event list" where
  "schedule br croppedImageSrc templateSrc =
     (if templateFirst br croppedImageSrc templateSrc
      then eventOf TemplateImage (decode br templateSrc) @ eventOf CroppedImage (decode br croppedImageSrc)
      else eventOf CroppedImage (decode br croppedImageSrc) @ eventOf TemplateImage (decode br templateSrc))"

definition posterCall :: "browser \<Rightarrow> string \<Rightarrow> string \<Rightarrow> rat \<Rightarrow> poster_call" where
  "posterCall br croppedImageSrc templateSrc aspectRatio =
     run br (newCall br aspectRatio) (schedule br croppedImageSrc templateSrc)"

definition createHighQualityPoster ::
  "browser \<Rightarrow> string \<Rightarrow> string \<Rightarrow> rat \<Rightarrow> (reason, bitmap) promise" where
  "createHighQualityPoster br croppedImageSrc templateSrc aspectRatio =
     settled (posterCall br croppedImageSrc templateSrc aspectRatio)"

section \<open>The working set\<close>

text \<open>The rectangle the cropping widget reports, in pixels of the source picture.\<close>

record PixelCrop =
  crop_x :: int
  crop_y :: int
  crop_width :: int
  crop_height :: int

record ImageData =
  id' :: string
  src :: string
  croppedImage :: "string option"
  crop :: "rat \<times> rat"
  zoom :: rat
  croppedAreaPixels :: "PixelCrop option"

text \<open>The state hooks of \<open>App\<close> (lines 82 to 89). The crop position, the zoom and the reported
  rectangle exist once for the session, beside the fields of the same names in every item.\<close>

record app =
  images :: "ImageData list"
  currentImageIndex :: int
  crop :: "rat \<times> rat"
  zoom :: rat
  croppedAreaPixels :: "PixelCrop option"
  aspectRatio :: rat
  template :: string
  isProcessing :: bool

text \<open>The two bundled overlays, as the paths they are imported from.\<close>

definition template4 :: string where
  "template4 = ''./assets/template4.png''"

definition template3 :: string where
  "template3 = ''./assets/template3.png''"

definition initialState :: app where
  "initialState =
     \<lparr>images = [], currentImageIndex = - 1, crop = (0, 0), zoom = 1, croppedAreaPixels = None,
      aspectRatio = 4 / 3, template = template4, isProcessing = False\<rparr>"

text \<open>The two ratio buttons (lines 242 to 258).\<close>

definition selectLandscape :: "app \<Rightarrow> app" where
  "selectLandscape st = st\<lparr>aspectRatio := 4 / 3, template := template4\<rparr>"

definition selectPortrait :: "app \<Rightarrow> app" where
  "selectPortrait st = st\<lparr>aspectRatio := 3 / 4, template := template3\<rparr>"

text \<open>\<open>xs[i]\<close>: an index outside the array reads \<open>undefined\<close>.\<close>

definition elementAt :: "'a list \<Rightarrow> int \<Rightarrow> 'a option" where
  "elementAt xs i = (if 0 \<le> i \<and> i < int (length xs) then Some (xs ! nat i) else None)"

text \<open>A \<open>string | null\<close> used as a condition: \<open>null\<close> and the empty string are false.\<close>

definition truthy :: "string option \<Rightarrow> bool" where
  "truthy c = (case c of None \<Rightarrow> False | Some s \<Rightarrow> s \<noteq> [])"

definition onCropComplete :: "PixelCrop option \<Rightarrow> app \<Rightarrow> app" where
  "onCropComplete area st = st\<lparr>app.croppedAreaPixels := area\<rparr>"

definition setCurrentImageIndex :: "int \<Rightarrow> app \<Rightarrow> app" where
  "setCurrentImageIndex index st = st\<lparr>currentImageIndex := index\<rparr>"

text \<open>Lines 222 and 223.\<close>

definition currentImage :: "app \<Rightarrow> ImageData option" where
  "currentImage st =
     (if currentImageIndex st \<ge> 0 then elementAt (images st) (currentImageIndex st) else None)"

text \<open>\<open>`poster-${n}.png`\<close> prints a number in decimal.\<close>

definition digitChar :: "nat \<Rightarrow> char" where
  "digitChar d = ''0123456789'' ! d"

function toString :: "nat \<Rightarrow> string" where
  "toString n = (if n < 10 then [digitChar n] else toString (n div 10) @ [digitChar (n mod 10)])"
  by pat_completeness auto
termination
  by (relation "measure (\<lambda>n. n)") auto

declare toString.simps [simp del]

text \<open>The item a file reader's result becomes (lines 105 to 112 and 133 to 140).\<close>

definition newImage :: "string \<Rightarrow> string \<Rightarrow> ImageData" where
  "newImage ident result =
     \<lparr>id' = ident, src = result, croppedImage = None, crop = (0, 0), zoom = 1,
      croppedAreaPixels = None\<rparr>"

text \<open>
  \<open>handleUpload\<close> (lines 95 to 125). Each file gets a reader; \<open>readerLoads\<close> runs the \<open>onload\<close>
  callbacks in the order they fire, each given as the clock, the file's position and the data
  URL read. The callback that makes \<open>newImages\<close> as long as \<open>files\<close> appends them all and
  selects index 0.
\<close>

fun readerLoads :: "nat \<Rightarrow> ImageData list \<Rightarrow> (nat \<times> nat \<times> string) list \<Rightarrow> app \<Rightarrow> app" where
  "readerLoads n newImages [] st = st"
| "readerLoads n newImages ((now, index, result) # rest) st =
     (let newImages' =
            newImages @ [newImage (''image-'' @ toString now @ ''-'' @ toString index) result]
      in readerLoads n newImages' rest
           (if length newImages' = n
            then st\<lparr>images := images st @ newImages',
                    currentImageIndex := (if length newImages' > 0 then 0 else - 1),
                    isProcessing := False\<rparr>
            else st))"

definition handleUpload :: "(nat \<times> (nat \<times> nat \<times> string) list) option \<Rightarrow> app \<Rightarrow> app" where
  "handleUpload files st =
     (case files of
        None \<Rightarrow> st
      | Some (n, loads) \<Rightarrow> readerLoads n [] loads (st\<lparr>isProcessing := True\<rparr>))"

text \<open>
  \<open>handleCameraCapture\<close> (lines 127 to 147). The reader's callback appends to the list as it
  is then, and selects \<open>images.length\<close> of the list the handler was created with, \<open>seen\<close>.
\<close>

definition handleCameraCapture :: "(nat \<times> string) option \<Rightarrow> ImageData list \<Rightarrow> app \<Rightarrow> app" where
  "handleCameraCapture file seen st =
     (case file of
        None \<Rightarrow> st
      | Some (now, result) \<Rightarrow>
          st\<lparr>images := images st @ [newImage (''camera-'' @ toString now) result],
             currentImageIndex := int (length seen)\<rparr>)"

text \<open>
  \<open>handleCrop\<close> (lines 149 to 169). \<open>getCroppedImg\<close> is the imported function, given here as
  what awaiting it yields for a source and a rectangle. \<open>cropRequest\<close> is the pair it is called
  with, \<open>setCropped\<close> the update made when it resolves.
\<close>

definition cropRequest :: "app \<Rightarrow> (string \<times> PixelCrop option) option" where
  "cropRequest st =
     (if currentImageIndex st = - 1 then None
      else case elementAt (images st) (currentImageIndex st) of
             None \<Rightarrow> None
           | Some img \<Rightarrow> Some (src img, app.croppedAreaPixels st))"

definition setCropped :: "int \<Rightarrow> string \<Rightarrow> PixelCrop option \<Rightarrow> app \<Rightarrow> app" where
  "setCropped idx croppedImg area st =
     st\<lparr>images :=
          map (\<lambda>(index, img).
                 if int index = idx
                 then img\<lparr>croppedImage := Some croppedImg, ImageData.croppedAreaPixels := area\<rparr>
                 else img)
              (enumerate 0 (images st))\<rparr>"

definition handleCrop ::
  "(string \<Rightarrow> PixelCrop option \<Rightarrow> ('e, string) promise) \<Rightarrow> app \<Rightarrow> app" where
  "handleCrop getCroppedImg st =
     (case cropRequest st of
        None \<Rightarrow> st
      | Some (imageSrc, pixelCrop) \<Rightarrow>
          (case getCroppedImg imageSrc pixelCrop of
             Resolved croppedImg \<Rightarrow>
               setCropped (currentImageIndex st) croppedImg (app.croppedAreaPixels st) st
           | Rejected e \<Rightarrow> st
           | Pending \<Rightarrow> st))"

text \<open>\<open>removeImage\<close> (lines 212 to 220).\<close>

definition removeImage :: "string \<Rightarrow> app \<Rightarrow> app" where
  "removeImage imageId st =
     (let filtered = filter (\<lambda>img. id' img \<noteq> imageId) (images st) in
      st\<lparr>images := filtered,
         currentImageIndex :=
           (if currentImageIndex st \<ge> int (length filtered)
            then max 0 (int (length filtered) - 1)
            else currentImageIndex st)\<rparr>)"

section \<open>Export\<close>

text \<open>What an export does, in program order: a state update, a call of
  \<open>createHighQualityPoster\<close>, a click on a download link (file name and data), a wait in
  milliseconds, and the rejection an \<open>await\<close> rethrows.\<close>

datatype effect =
    SetIsProcessing bool
  | CreatePoster string string rat
  | Click string bitmap
  | Timeout nat
  | Throw reason

text \<open>\<open>image.croppedImage!\<close> is passed on as it is; \<open>src\<close> of an \<open>Image\<close> turns \<open>null\<close> into
  the text \<open>null\<close>.\<close>

definition asSrc :: "string option \<Rightarrow> string" where
  "asSrc c = (case c of None \<Rightarrow> ''null'' | Some s \<Rightarrow> s)"

definition completedImages :: "app \<Rightarrow> ImageData list" where
  "completedImages st = filter (\<lambda>img. truthy (croppedImage img)) (images st)"

text \<open>The loop of lines 177 to 191, from index \<open>i\<close> on, and line 193 after it. A rejected
  promise leaves the loop through the \<open>await\<close>; a pending one never comes back.\<close>

function downloadLoop :: "browser \<Rightarrow> string \<Rightarrow> rat \<Rightarrow> ImageData list \<Rightarrow> nat \<Rightarrow> effect list" where
  "downloadLoop br tpl ar completed i =
     (if i < length completed then
        CreatePoster (asSrc (croppedImage (completed ! i))) tpl ar #
        (case createHighQualityPoster br (asSrc (croppedImage (completed ! i))) tpl ar of
           Resolved dataUrl \<Rightarrow>
             Click (''poster-'' @ toString (i + 1) @ ''.png'') dataUrl # Timeout 500 #
             downloadLoop br tpl ar completed (i + 1)
         | Rejected e \<Rightarrow> [Throw e]
         | Pending \<Rightarrow> [])
      else [SetIsProcessing False])"
  by pat_completeness auto
termination
  by (relation "measure (\<lambda>(br, tpl, ar, completed, i). length completed - i)") auto

declare downloadLoop.simps [simp del]

definition handleDownloadAll :: "browser \<Rightarrow> app \<Rightarrow> effect list" where
  "handleDownloadAll br st =
     (if length (completedImages st) = 0 then []
      else SetIsProcessing True #
           downloadLoop br (template st) (aspectRatio st) (completedImages st) 0)"

definition handleDownloadSingle :: "browser \<Rightarrow> string \<Rightarrow> app \<Rightarrow> effect list" where
  "handleDownloadSingle br imageId st =
     (case find (\<lambda>img. id' img = imageId) (images st) of
        None \<Rightarrow> []
      | Some img \<Rightarrow>
          if \<not> truthy (croppedImage img) then []
          else CreatePoster (asSrc (croppedImage img)) (template st) (aspectRatio st) #
               (case createHighQualityPoster br (asSrc (croppedImage img)) (template st)
                       (aspectRatio st) of
                  Resolved dataUrl \<Rightarrow> [Click (''poster-'' @ imageId @ ''.png'') dataUrl]
                | Rejected e \<Rightarrow> [Throw e]
                | Pending \<Rightarrow> []))"

text \<open>The download links clicked, and the pictures composed, in a run.\<close>

fun clicks :: "effect list \<Rightarrow> (string \<times> bitmap) list" where
  "clicks [] = []"
| "clicks (Click name dataUrl # es) = (name, dataUrl) # clicks es"
| "clicks (e # es) = clicks es"

fun composed :: "effect list \<Rightarrow> string list" where
  "composed [] = []"
| "composed (CreatePoster c tpl ar # es) = c # composed es"
| "composed (e # es) = composed es"

section \<open>The crop extractor\<close>

datatype crop_error = InvalidRectangleError | DecodeError

text \<open>Modelled from the spec: the bounds a crop rectangle has to keep inside its source
  picture (the data model's invariant of a crop rectangle).\<close>

definition boundsInvariant :: "bitmap \<Rightarrow> PixelCrop \<Rightarrow> bool" where
  "boundsInvariant s r =
     (0 \<le> crop_x r \<and> 0 \<le> crop_y r \<and>
      crop_x r + crop_width r \<le> int (naturalWidth s) \<and>
      crop_y r + crop_height r \<le> int (naturalHeight s) \<and>
      crop_width r > 0 \<and> crop_height r > 0)"

text \<open>Modelled from the spec: the copy step of the crop extractor, an output surface of the
  rectangle's size holding the rectangle's pixels from offset \<open>(0, 0)\<close> on, with no scaling.\<close>

definition copyRegion :: "bitmap \<Rightarrow> PixelCrop \<Rightarrow> bitmap" where
  "copyRegion s r =
     \<lparr>naturalWidth = nat (crop_width r), naturalHeight = nat (crop_height r),
      pixelAt = (\<lambda>u v. pixelAt s (nat (crop_x r) + u) (nat (crop_y r) + v))\<rparr>"

text \<open>
  Modelled from the spec: the body of \<open>getCroppedImg\<close> (\<open>./utils/cropImage.js\<close>), of which the
  sources hold the declaration only. Following the contract of the crop extractor: a null
  rectangle, or one that breaks the bounds, fails with \<open>InvalidRectangleError\<close>; a source that
  cannot be decoded fails with \<open>DecodeError\<close>; otherwise the result is the region copied
  without scaling. The rectangle is checked as far as it can be before the source is decoded,
  its extent against the decoded size; a decode that never finishes leaves the promise pending.
\<close>

definition extractCrop ::
  "browser \<Rightarrow> string option \<Rightarrow> PixelCrop option \<Rightarrow> (crop_error, bitmap) promise" where
  "extractCrop br imageSrc pixelCrop =
     (case pixelCrop of
        None \<Rightarrow> Rejected InvalidRectangleError
      | Some r \<Rightarrow>
          if crop_x r < 0 \<or> crop_y r < 0 \<or> crop_width r \<le> 0 \<or> crop_height r \<le> 0
          then Rejected InvalidRectangleError
          else (case imageSrc of
                  None \<Rightarrow> Rejected DecodeError
                | Some u \<Rightarrow>
                    (case decode br u of
                       Undecodable \<Rightarrow> Rejected DecodeError
                     | Hangs \<Rightarrow> Pending
                     | Decoded s \<Rightarrow>
                         if boundsInvariant s r then Resolved (copyRegion s r)
                         else Rejected InvalidRectangleError)))"

section \<open>Sample data\<close>

text \<open>A picture of one colour, nearest-neighbour scaling, and a browser that decodes a red
  400 by 450 photo and, for both templates, a 4 by 3 overlay that is opaque blue in its top
  row and transparent below.\<close>

definition solid :: "nat \<Rightarrow> nat \<Rightarrow> rgba \<Rightarrow> bitmap" where
  "solid w h p = \<lparr>naturalWidth = w, naturalHeight = h, pixelAt = (\<lambda>x y. p)\<rparr>"

definition nearestNeighbour :: "bitmap \<Rightarrow> nat \<Rightarrow> nat \<Rightarrow> nat \<Rightarrow> nat \<Rightarrow> rgba" where
  "nearestNeighbour b dw dh u v =
     pixelAt b (u * naturalWidth b div dw) (v * naturalHeight b div dh)"

definition photo :: bitmap where
  "photo = solid 400 450 (RGBA 255 0 0 255)"

definition overlay :: bitmap where
  "overlay =
     \<lparr>naturalWidth = 4, naturalHeight = 3,
      pixelAt = (\<lambda>x y. if y = 0 then RGBA 0 0 255 255 else RGBA 0 0 0 0)\<rparr>"

definition sampleBrowser :: browser where
  "sampleBrowser =
     \<lparr>decode = (\<lambda>u. if u = ''data:photo'' then Decoded photo
                     else if u = template4 \<or> u = template3 then Decoded overlay
                     else Undecodable),
      getContext2d = True,
      resample = nearestNeighbour,
      mix = (\<lambda>s d. s),
      templateFirst = (\<lambda>c t. True)\<rparr>"

definition item :: "string \<Rightarrow> string option \<Rightarrow> ImageData" where
  "item ident c = (newImage ident ''data:source'')\<lparr>croppedImage := c\<rparr>"

definition gradient :: "nat \<Rightarrow> nat \<Rightarrow> bitmap" where
  "gradient w h =
     \<lparr>naturalWidth = w, naturalHeight = h, pixelAt = (\<lambda>x y. RGBA (of_nat x) (of_nat y) 0 255)\<rparr>"

text \<open>The same browser with an 800 by 600 source picture, and one in which only the photo
  can be loaded.\<close>

definition sourceBrowser :: browser where
  "sourceBrowser =
     sampleBrowser\<lparr>decode := (\<lambda>u. if u = ''data:source'' then Decoded (gradient 800 600)
                                   else decode sampleBrowser u)\<rparr>"

definition offlineBrowser :: browser where
  "offlineBrowser =
     sampleBrowser\<lparr>decode := (\<lambda>u. if u = ''data:photo'' then Decoded photo else Undecodable)\<rparr>"

text \<open>Working sets: four items of which three are cropped, a single cropped item, a single
  item whose cropped image is the empty string, and two items fresh from an upload.\<close>

definition threeCommitted :: app where
  "threeCommitted =
     initialState\<lparr>images :=
       [item ''a'' (Some ''data:photo''), item ''b'' None, item ''c'' (Some ''data:photo''),
        item ''d'' (Some ''data:photo'')]\<rparr>"

definition oneCommitted :: app where
  "oneCommitted = initialState\<lparr>images := [item ''a'' (Some ''data:photo'')]\<rparr>"

definition emptyCrop :: app where
  "emptyCrop = initialState\<lparr>images := [item ''a'' (Some '''')]\<rparr>"

definition twoUploaded :: app where
  "twoUploaded =
     initialState\<lparr>images := [newImage ''a'' ''data:first'', newImage ''b'' ''data:second''],
                  currentImageIndex := 0\<rparr>"

text \<open>Two rectangles for the 800 by 600 source, one inside it and one hanging over its right
  edge; a working set made by uploading one file; and a crop function that always succeeds.\<close>

definition scenarioCrop :: PixelCrop where
  "scenarioCrop = \<lparr>crop_x = 100, crop_y = 50, crop_width = 400, crop_height = 450\<rparr>"

definition overhangingCrop :: PixelCrop where
  "overhangingCrop = \<lparr>crop_x = 700, crop_y = 50, crop_width = 400, crop_height = 450\<rparr>"

definition uploadedOne :: app where
  "uploadedOne = handleUpload (Some (1, [(1, 0, ''data:source'')])) initialState"

definition alwaysCropped :: "string \<Rightarrow> PixelCrop option \<Rightarrow> (crop_error, string) promise" where
  "alwaysCropped imageSrc pixelCrop = Resolved ''data:cropped''"

section \<open>Batch export as specified\<close>

text \<open>The file names the specification gives the downloads of a batch export:
  \<open>poster-n.png\<close> for the \<open>n\<close>-th of the items whose cropped image is not null.\<close>

definition posterName :: "nat \<Rightarrow> string" where
  "posterName n = ''poster-'' @ toString n @ ''.png''"

definition claimedBatchNames :: "app \<Rightarrow> string list" where
  "claimedBatchNames st =
     map posterName [1..<Suc (length (filter (\<lambda>img. croppedImage img \<noteq> None) (images st)))]"

section \<open>Invariants\<close>

text \<open>The active index is \<open>-1\<close> or the index of an item.\<close>

definition selectionValid :: "app \<Rightarrow> bool" where
  "selectionValid st =
     (currentImageIndex st = - 1 \<or>
      (0 \<le> currentImageIndex st \<and> currentImageIndex st < int (length (images st))))"

text \<open>A resolved promise holds a picture of the canvas's size.\<close>

definition sized :: "poster_call \<Rightarrow> bool" where
  "sized s = (\<forall>p. settled s = Resolved p \<longrightarrow>
     naturalWidth p = width (posterCanvas s) \<and> naturalHeight p = height (posterCanvas s))"

text \<open>Draws have been made only once the counter has reached \<open>totalImages\<close>.\<close>

definition gated :: "poster_call \<Rightarrow> bool" where
  "gated s = (drawn s \<noteq> [] \<longrightarrow> totalImages \<le> imagesLoaded s)"

section \<open>Properties of the compositor\<close>

subsection \<open>The canvas keeps its size\<close>

lemma width_drawImage [simp]: "width (drawImage br img dx dy dw dh c) = width c"
  by (simp add: drawImage_def split: option.split)

lemma height_drawImage [simp]: "height (drawImage br img dx dy dw dh c) = height c"
  by (simp add: drawImage_def split: option.split)

lemma posterCanvas_reject [simp]: "posterCanvas (reject e s) = posterCanvas s"
  by (simp add: reject_def split: promise.split)

lemma posterCanvas_resolve [simp]: "posterCanvas (resolve v s) = posterCanvas s"
  by (simp add: resolve_def split: promise.split)

lemma drawn_reject [simp]: "drawn (reject e s) = drawn s"
  by (simp add: reject_def split: promise.split)

lemma drawn_newCall [simp]: "drawn (newCall br ar) = []"
  by (simp add: newCall_def)

lemma run_Nil [simp]: "run br s [] = s"
  by (simp add: run_def)

lemma run_Cons [simp]: "run br s (e # es) = run br (fire br s e) es"
  by (simp add: run_def)

lemma size_onImageLoad [simp]:
  "width (posterCanvas (onImageLoad br s)) = width (posterCanvas s)"
  "height (posterCanvas (onImageLoad br s)) = height (posterCanvas s)"
  by (simp_all add: onImageLoad_def Let_def ctxDrawImage_def)

lemma size_fire [simp]:
  "width (posterCanvas (fire br s e)) = width (posterCanvas s)"
  "height (posterCanvas (fire br s e)) = height (posterCanvas s)"
  by (induction br s e rule: fire.induct) simp_all

lemma size_run [simp]:
  "width (posterCanvas (run br s es)) = width (posterCanvas s)"
  "height (posterCanvas (run br s es)) = height (posterCanvas s)"
  by (induction es arbitrary: s) simp_all

lemmas call_defs = newCall_def onImageLoad_def Let_def totalImages_def ctxDrawImage_def
  reject_def resolve_def

lemma sized_reject: "sized s \<Longrightarrow> sized (reject e s)"
  by (auto simp: sized_def reject_def split: promise.splits)

lemma sized_onImageLoad: "sized s \<Longrightarrow> sized (onImageLoad br s)"
  by (auto simp: sized_def onImageLoad_def Let_def reject_def resolve_def ctxDrawImage_def
      toDataURL_def split: promise.splits)

lemma sized_elements [simp]:
  "sized (s\<lparr>croppedImageEl := x\<rparr>) = sized s"
  "sized (s\<lparr>templateImageEl := x\<rparr>) = sized s"
  by (simp_all add: sized_def)

lemma sized_fire: "sized s \<Longrightarrow> sized (fire br s e)"
  by (induction br s e rule: fire.induct) (simp_all add: sized_reject sized_onImageLoad)

lemma sized_run: "sized s \<Longrightarrow> sized (run br s es)"
  by (induction es arbitrary: s) (simp_all add: sized_fire)

lemma sized_newCall: "sized (newCall br ar)"
  by (simp add: sized_def newCall_def)

lemma sample_resolves:
  "\<exists>p. createHighQualityPoster sampleBrowser ''data:photo'' template4 (4 / 3) = Resolved p"
  "\<exists>p. createHighQualityPoster sampleBrowser ''data:photo'' template3 (3 / 4) = Resolved p"
  by (simp_all add: createHighQualityPoster_def posterCall_def schedule_def sampleBrowser_def
       template4_def template3_def call_defs)

text \<open>
  C1. Whatever the cropped image, the template and the browser, a poster that
  \<open>createHighQualityPoster\<close> resolves with is 1200 by 1600 when the aspect ratio is 3/4
  (portrait) and 1600 by 1200 otherwise, in particular for 4/3 (landscape), the ratio the
  session starts with. The sizes of the two decoded inputs play no part.
\<close>

theorem poster_dimensions:
  "createHighQualityPoster br cs ts ar = Resolved poster \<Longrightarrow>
     (ar = 3 / 4 \<longrightarrow> naturalWidth poster = 1200 \<and> naturalHeight poster = 1600) \<and>
     (ar \<noteq> 3 / 4 \<longrightarrow> naturalWidth poster = 1600 \<and> naturalHeight poster = 1200) \<and>
     (ar = 4 / 3 \<longrightarrow> naturalWidth poster = 1600 \<and> naturalHeight poster = 1200) \<and>
     aspectRatio initialState = 4 / 3"
  using sized_run [of "newCall br ar" br "schedule br cs ts", OF sized_newCall]
  by (auto simp: createHighQualityPoster_def posterCall_def sized_def newCall_def blankCanvas_def
      initialState_def)

theorem poster_dimensions_witness:
  "(\<exists>p. createHighQualityPoster sampleBrowser ''data:photo'' template4 (4 / 3) = Resolved p \<and>
        naturalWidth p = 1600 \<and> naturalHeight p = 1200) \<and>
   (\<exists>p. createHighQualityPoster sampleBrowser ''data:photo'' template3 (3 / 4) = Resolved p \<and>
        naturalWidth p = 1200 \<and> naturalHeight p = 1600)"
proof -
  from sample_resolves obtain p q where
    p: "createHighQualityPoster sampleBrowser ''data:photo'' template4 (4 / 3) = Resolved p" and
    q: "createHighQualityPoster sampleBrowser ''data:photo'' template3 (3 / 4) = Resolved q"
    by blast
  from poster_dimensions [OF p] have "naturalWidth p = 1600 \<and> naturalHeight p = 1200" by simp
  moreover from poster_dimensions [OF q] have "naturalWidth q = 1200 \<and> naturalHeight q = 1600"
    by simp
  ultimately show ?thesis using p q by blast
qed

subsection \<open>The join\<close>

text \<open>Each \<open>Image\<close> has its \<open>src\<close> set once, so it fires one callback at most: the events
  of a call name distinct images, and there are two at most.\<close>

lemma img_id_two: "i \<noteq> j \<Longrightarrow> j \<noteq> k \<Longrightarrow> i \<noteq> k \<Longrightarrow> False" for i j k :: img_id
  by (cases i; cases j; cases k) simp_all

lemma distinct_events:
  assumes "distinct (map event_img es)"
  shows "es = [] \<or> (\<exists>e. es = [e]) \<or> (\<exists>e f. es = [e, f] \<and> event_img e \<noteq> event_img f)"
proof (cases es)
  case Nil
  then show ?thesis by simp
next
  case (Cons e es1)
  note c1 = this
  show ?thesis
  proof (cases es1)
    case Nil
    with c1 show ?thesis by simp
  next
    case (Cons f es2)
    note c2 = this
    show ?thesis
    proof (cases es2)
      case Nil
      with c1 c2 assms show ?thesis by simp
    next
      case (Cons g es3)
      with c1 c2 assms have "event_img e \<noteq> event_img f" "event_img f \<noteq> event_img g"
        "event_img e \<noteq> event_img g" by auto
      then have False by (rule img_id_two)
      then show ?thesis ..
    qed
  qed
qed

lemma one_event_draws_nothing:
  "drawn (fire br (newCall br ar) e) = [] \<and>
   posterCanvas (fire br (newCall br ar) e) = posterCanvas (newCall br ar)"
  by (cases e; cases "event_img e") (auto simp: newCall_def onImageLoad_def Let_def totalImages_def)

lemma two_events_draw_nothing:
  assumes "event_img e \<noteq> event_img f"
    and "\<not> ((\<exists>b. OnLoad CroppedImage b \<in> {e, f}) \<and> (\<exists>b. OnLoad TemplateImage b \<in> {e, f}))"
  shows "drawn (fire br (fire br (newCall br ar) e) f) = [] \<and>
     posterCanvas (fire br (fire br (newCall br ar) e) f) = posterCanvas (newCall br ar)"
  using assms
  by (cases e; cases f; cases "event_img e"; cases "event_img f")
     (auto simp: newCall_def onImageLoad_def Let_def totalImages_def reject_def)

lemma quiet_until_joined:
  assumes d: "distinct (map event_img es)"
    and n: "\<not> ((\<exists>b. OnLoad CroppedImage b \<in> set es) \<and> (\<exists>b. OnLoad TemplateImage b \<in> set es))"
  shows "drawn (run br (newCall br ar) es) = [] \<and>
         posterCanvas (run br (newCall br ar) es) = posterCanvas (newCall br ar)"
proof -
  from distinct_events [OF d] consider "es = []" | e where "es = [e]"
    | e f where "es = [e, f]" "event_img e \<noteq> event_img f" by blast
  then show ?thesis
  proof cases
    case 1
    then show ?thesis by simp
  next
    case 2
    then show ?thesis using one_event_draws_nothing by simp
  next
    case 3
    with n have "\<not> ((\<exists>b. OnLoad CroppedImage b \<in> {e, f}) \<and> (\<exists>b. OnLoad TemplateImage b \<in> {e, f}))"
      by simp
    from two_events_draw_nothing [OF 3(2) this] 3(1) show ?thesis by simp
  qed
qed

lemma gated_fire: "gated s \<Longrightarrow> gated (fire br s e)"
  by (induction br s e rule: fire.induct)
     (auto simp: gated_def onImageLoad_def Let_def totalImages_def ctxDrawImage_def reject_def
        resolve_def split: promise.splits)

lemma gated_run: "gated s \<Longrightarrow> gated (run br s es)"
  by (induction es arbitrary: s) (simp_all add: gated_fire)

lemma gated_newCall: "gated (newCall br ar)"
  by (simp add: gated_def)

lemma order_irrelevant:
  "run br (newCall br ar) [OnLoad CroppedImage c, OnLoad TemplateImage t] =
   run br (newCall br ar) [OnLoad TemplateImage t, OnLoad CroppedImage c]"
  by (simp add: newCall_def onImageLoad_def Let_def totalImages_def)

lemma resolved_iff:
  "(createHighQualityPoster br cs ts ar = Resolved p) =
   (\<exists>c t. decode br cs = Decoded c \<and> decode br ts = Decoded t \<and> getContext2d br \<and>
      p = toDataURL (posterCanvas
            (run br (newCall br ar) [OnLoad CroppedImage c, OnLoad TemplateImage t])))"
  by (cases "decode br cs"; cases "decode br ts"; cases "templateFirst br cs ts")
     (auto simp: createHighQualityPoster_def posterCall_def schedule_def call_defs)

text \<open>Nothing the call does reads which decode came first, beyond the order of the events.\<close>

lemma stretched_order [simp]: "stretched (br\<lparr>templateFirst := f\<rparr>) = stretched br"
  by (intro ext) (simp add: stretched_def)

lemma drawImage_order [simp]: "drawImage (br\<lparr>templateFirst := f\<rparr>) = drawImage br"
  by (intro ext) (simp add: drawImage_def cong: option.case_cong if_cong)

lemma ctxDrawImage_order [simp]: "ctxDrawImage (br\<lparr>templateFirst := f\<rparr>) = ctxDrawImage br"
  by (intro ext) (simp add: ctxDrawImage_def)

lemma onImageLoad_order [simp]: "onImageLoad (br\<lparr>templateFirst := f\<rparr>) = onImageLoad br"
  by (intro ext) (simp add: onImageLoad_def Let_def)

lemma fire_order [simp]: "fire (br\<lparr>templateFirst := f\<rparr>) s e = fire br s e"
  by (induction br s e rule: fire.induct) simp_all

lemma run_order [simp]: "run (br\<lparr>templateFirst := f\<rparr>) s es = run br s es"
  by (induction es arbitrary: s) simp_all

lemma newCall_order [simp]: "newCall (br\<lparr>templateFirst := f\<rparr>) = newCall br"
  by (intro ext) (simp add: newCall_def)

lemma resolved_any_order:
  "(createHighQualityPoster (br\<lparr>templateFirst := f\<rparr>) cs ts ar = Resolved p) =
   (createHighQualityPoster (br\<lparr>templateFirst := g\<rparr>) cs ts ar = Resolved p)"
  unfolding resolved_iff by simp

text \<open>
  C2. In a call of \<open>createHighQualityPoster\<close>, as long as the events that have arrived do not
  include the load of the cropped image and the load of the template, no \<open>drawImage\<close> has been
  called and the canvas is as it was created; draws are only ever made with the counter at
  \<open>totalImages\<close> (2) or beyond. The state after both loads is the same in either order of
  arrival, and which decode the browser finishes first does not change whether the call
  resolves nor the poster it resolves with.
\<close>

theorem join_before_draw:
  "(distinct (map event_img es) \<and>
      \<not> ((\<exists>b. OnLoad CroppedImage b \<in> set es) \<and> (\<exists>b. OnLoad TemplateImage b \<in> set es)) \<longrightarrow>
        drawn (run br (newCall br ar) es) = [] \<and>
        posterCanvas (run br (newCall br ar) es) = posterCanvas (newCall br ar)) \<and>
   (drawn (run br (newCall br ar) es) \<noteq> [] \<longrightarrow>
      totalImages \<le> imagesLoaded (run br (newCall br ar) es)) \<and>
   run br (newCall br ar) [OnLoad CroppedImage c, OnLoad TemplateImage t] =
     run br (newCall br ar) [OnLoad TemplateImage t, OnLoad CroppedImage c] \<and>
   (createHighQualityPoster (br\<lparr>templateFirst := f\<rparr>) cs ts ar = Resolved p) =
     (createHighQualityPoster (br\<lparr>templateFirst := g\<rparr>) cs ts ar = Resolved p)"
proof (intro conjI)
  show "distinct (map event_img es) \<and>
      \<not> ((\<exists>b. OnLoad CroppedImage b \<in> set es) \<and> (\<exists>b. OnLoad TemplateImage b \<in> set es)) \<longrightarrow>
        drawn (run br (newCall br ar) es) = [] \<and>
        posterCanvas (run br (newCall br ar) es) = posterCanvas (newCall br ar)"
    using quiet_until_joined by blast
  show "drawn (run br (newCall br ar) es) \<noteq> [] \<longrightarrow>
      totalImages \<le> imagesLoaded (run br (newCall br ar) es)"
    using gated_run [of "newCall br ar" br es, OF gated_newCall] by (simp add: gated_def)
  show "run br (newCall br ar) [OnLoad CroppedImage c, OnLoad TemplateImage t] =
     run br (newCall br ar) [OnLoad TemplateImage t, OnLoad CroppedImage c]"
    by (rule order_irrelevant)
  show "(createHighQualityPoster (br\<lparr>templateFirst := f\<rparr>) cs ts ar = Resolved p) =
     (createHighQualityPoster (br\<lparr>templateFirst := g\<rparr>) cs ts ar = Resolved p)"
    by (rule resolved_any_order)
qed

theorem join_before_draw_witness:
  "distinct (map event_img [OnLoad TemplateImage overlay]) \<and>
   drawn (run sampleBrowser (newCall sampleBrowser (4 / 3)) [OnLoad TemplateImage overlay]) = [] \<and>
   drawn (run sampleBrowser (newCall sampleBrowser (4 / 3))
      [OnLoad TemplateImage overlay, OnLoad CroppedImage photo]) \<noteq> [] \<and>
   totalImages \<le> imagesLoaded (run sampleBrowser (newCall sampleBrowser (4 / 3))
      [OnLoad TemplateImage overlay, OnLoad CroppedImage photo])"
proof -
  have a: "drawn (run sampleBrowser (newCall sampleBrowser (4 / 3))
      [OnLoad TemplateImage overlay, OnLoad CroppedImage photo]) \<noteq> []"
    by (simp add: call_defs sampleBrowser_def)
  have b: "distinct (map event_img [OnLoad TemplateImage overlay]) \<and>
      \<not> ((\<exists>b. OnLoad CroppedImage b \<in> set [OnLoad TemplateImage overlay]) \<and>
         (\<exists>b. OnLoad TemplateImage b \<in> set [OnLoad TemplateImage overlay]))"
    by simp
  from join_before_draw [where es = "[OnLoad TemplateImage overlay]" and br = sampleBrowser
      and ar = "4 / 3"] b
  have "drawn (run sampleBrowser (newCall sampleBrowser (4 / 3)) [OnLoad TemplateImage overlay]) = []"
    by blast
  moreover from join_before_draw [where es = "[OnLoad TemplateImage overlay, OnLoad CroppedImage photo]"
      and br = sampleBrowser and ar = "4 / 3"] a
  have "totalImages \<le> imagesLoaded (run sampleBrowser (newCall sampleBrowser (4 / 3))
      [OnLoad TemplateImage overlay, OnLoad CroppedImage photo])"
    by blast
  ultimately show ?thesis using a by simp
qed

subsection \<open>The two draws\<close>

lemma two_loads:
  "run br (newCall br ar) [OnLoad CroppedImage c, OnLoad TemplateImage t] =
   (if getContext2d br then
      (let s0 = newCall br ar;
           w = width (posterCanvas s0); h = height (posterCanvas s0);
           cv = drawImage br (Some t) 0 0 w h (drawImage br (Some c) 0 0 w h (posterCanvas s0))
       in s0\<lparr>posterCanvas := cv, croppedImageEl := Some c, templateImageEl := Some t,
              imagesLoaded := 2, settled := Resolved (toDataURL cv),
              drawn := [DrawImage (Some c) 0 0 w h, DrawImage (Some t) 0 0 w h]\<rparr>)
    else (newCall br ar)\<lparr>croppedImageEl := Some c, templateImageEl := Some t, imagesLoaded := 2,
              settled := Rejected (Message ''Canvas context not available'')\<rparr>)"
  by (simp add: call_defs)

lemma opaque_on_top:
  assumes "x < width c" "y < height c"
    and "stretched br t (width c) (height c) x y = Some q" "alpha q = 255"
  shows "pixels (drawImage br (Some t) 0 0 (width c) (height c) c) x y = q"
  using assms by (simp add: drawImage_def sourceOver_def)

lemma posterCall_both_loaded:
  assumes "decode br cs = Decoded c" "decode br ts = Decoded t"
  shows "posterCall br cs ts ar =
     run br (newCall br ar) [OnLoad CroppedImage c, OnLoad TemplateImage t]"
  using assms order_irrelevant [of br ar c t]
  by (simp add: posterCall_def schedule_def del: run_Cons)

lemma distinct_schedule: "distinct (map event_img (schedule br cs ts))"
  by (cases "decode br cs"; cases "decode br ts") (simp_all add: schedule_def)

lemma loads_in_schedule:
  "(\<exists>b. OnLoad CroppedImage b \<in> set (schedule br cs ts)) = (\<exists>c. decode br cs = Decoded c)"
  "(\<exists>b. OnLoad TemplateImage b \<in> set (schedule br cs ts)) = (\<exists>t. decode br ts = Decoded t)"
  by (cases "decode br cs"; cases "decode br ts"; auto simp add: schedule_def)+

lemma unresolved_draws_nothing:
  assumes "\<forall>p. createHighQualityPoster br cs ts ar \<noteq> Resolved p"
  shows "drawn (posterCall br cs ts ar) = [] \<and>
         posterCanvas (posterCall br cs ts ar) = posterCanvas (newCall br ar)"
proof (cases "(\<exists>c. decode br cs = Decoded c) \<and> (\<exists>t. decode br ts = Decoded t)")
  case True
  then obtain c t where d: "decode br cs = Decoded c" "decode br ts = Decoded t" by blast
  with assms have "\<not> getContext2d br" unfolding resolved_iff by blast
  then show ?thesis
    by (simp add: posterCall_both_loaded [OF d] two_loads del: run_Cons)
next
  case False
  then have "\<not> ((\<exists>b. OnLoad CroppedImage b \<in> set (schedule br cs ts)) \<and>
                (\<exists>b. OnLoad TemplateImage b \<in> set (schedule br cs ts)))"
    by (simp add: loads_in_schedule)
  from quiet_until_joined [OF distinct_schedule this]
  show ?thesis by (simp only: posterCall_def)
qed

text \<open>
  C3. A call of \<open>createHighQualityPoster\<close> that resolves has made exactly two draws: the
  cropped image first and the template second, each at offset (0, 0) with the width and
  height of the whole poster. At every pixel of the poster where the template, stretched to
  the poster's size, is fully opaque (alpha 255), the poster has the template's pixel; so
  where the stretched cropped image differs from it there, the poster does not show the
  cropped image. A call that does not resolve has drawn nothing.
\<close>

theorem cropped_then_template:
  "(\<forall>p. createHighQualityPoster br cs ts ar = Resolved p \<longrightarrow>
      (\<exists>c t. decode br cs = Decoded c \<and> decode br ts = Decoded t \<and>
         naturalWidth p = width (posterCanvas (newCall br ar)) \<and>
         naturalHeight p = height (posterCanvas (newCall br ar)) \<and>
         drawn (posterCall br cs ts ar) =
           [DrawImage (Some c) 0 0 (naturalWidth p) (naturalHeight p),
            DrawImage (Some t) 0 0 (naturalWidth p) (naturalHeight p)] \<and>
         (\<forall>x y q. x < naturalWidth p \<longrightarrow> y < naturalHeight p \<longrightarrow>
            stretched br t (naturalWidth p) (naturalHeight p) x y = Some q \<longrightarrow> alpha q = 255 \<longrightarrow>
              pixelAt p x y = q \<and>
              (\<forall>q'. stretched br c (naturalWidth p) (naturalHeight p) x y = Some q' \<longrightarrow> q' \<noteq> q \<longrightarrow>
                 pixelAt p x y \<noteq> q')))) \<and>
   ((\<forall>p. createHighQualityPoster br cs ts ar \<noteq> Resolved p) \<longrightarrow> drawn (posterCall br cs ts ar) = [])"
proof (intro conjI allI impI)
  fix p assume r: "createHighQualityPoster br cs ts ar = Resolved p"
  then obtain c t where
    d: "decode br cs = Decoded c" "decode br ts = Decoded t" "getContext2d br"
    unfolding resolved_iff by blast
  note pc = posterCall_both_loaded [OF d(1,2), of ar]
  let ?s0 = "newCall br ar"
  let ?w = "width (posterCanvas ?s0)" and ?h = "height (posterCanvas ?s0)"
  let ?c1 = "drawImage br (Some c) 0 0 ?w ?h (posterCanvas ?s0)"
  let ?cv = "drawImage br (Some t) 0 0 ?w ?h ?c1"
  from r pc d have p: "p = toDataURL ?cv"
    by (simp add: createHighQualityPoster_def two_loads Let_def del: run_Cons)
  have w: "naturalWidth p = ?w" and h: "naturalHeight p = ?h"
    by (simp_all add: p toDataURL_def)
  have dr: "drawn (posterCall br cs ts ar) =
      [DrawImage (Some c) 0 0 ?w ?h, DrawImage (Some t) 0 0 ?w ?h]"
    using d by (simp add: pc two_loads Let_def del: run_Cons)
  have px: "pixelAt p x y = q"
    if "x < ?w" "y < ?h" "stretched br t ?w ?h x y = Some q" "alpha q = 255" for x y q
  proof -
    have "pixels (drawImage br (Some t) 0 0 (width ?c1) (height ?c1) ?c1) x y = q"
      by (rule opaque_on_top) (use that in simp_all)
    then show ?thesis by (simp add: p toDataURL_def)
  qed
  show "\<exists>c t. decode br cs = Decoded c \<and> decode br ts = Decoded t \<and>
         naturalWidth p = width (posterCanvas (newCall br ar)) \<and>
         naturalHeight p = height (posterCanvas (newCall br ar)) \<and>
         drawn (posterCall br cs ts ar) =
           [DrawImage (Some c) 0 0 (naturalWidth p) (naturalHeight p),
            DrawImage (Some t) 0 0 (naturalWidth p) (naturalHeight p)] \<and>
         (\<forall>x y q. x < naturalWidth p \<longrightarrow> y < naturalHeight p \<longrightarrow>
            stretched br t (naturalWidth p) (naturalHeight p) x y = Some q \<longrightarrow> alpha q = 255 \<longrightarrow>
              pixelAt p x y = q \<and>
              (\<forall>q'. stretched br c (naturalWidth p) (naturalHeight p) x y = Some q' \<longrightarrow> q' \<noteq> q \<longrightarrow>
                 pixelAt p x y \<noteq> q'))"
    using d dr px unfolding w h by (intro exI [of _ c] exI [of _ t]) auto
next
  assume "\<forall>p. createHighQualityPoster br cs ts ar \<noteq> Resolved p"
  then show "drawn (posterCall br cs ts ar) = []"
    using unresolved_draws_nothing by blast
qed

theorem cropped_then_template_witness:
  "(\<exists>p. createHighQualityPoster sampleBrowser ''data:photo'' template4 (4 / 3) = Resolved p \<and>
       drawn (posterCall sampleBrowser ''data:photo'' template4 (4 / 3)) =
         [DrawImage (Some photo) 0 0 1600 1200, DrawImage (Some overlay) 0 0 1600 1200] \<and>
       stretched sampleBrowser overlay 1600 1200 10 0 = Some (RGBA 0 0 255 255) \<and>
       stretched sampleBrowser photo 1600 1200 10 0 = Some (RGBA 255 0 0 255) \<and>
       pixelAt p 10 0 = RGBA 0 0 255 255) \<and>
   (\<forall>p. createHighQualityPoster sampleBrowser ''data:photo'' ''data:missing'' (4 / 3) \<noteq> Resolved p) \<and>
   drawn (posterCall sampleBrowser ''data:photo'' ''data:missing'' (4 / 3)) = []"
proof -
  from sample_resolves(1) obtain p where
    p: "createHighQualityPoster sampleBrowser ''data:photo'' template4 (4 / 3) = Resolved p" ..
  from cropped_then_template [of sampleBrowser "''data:photo''" template4 "4 / 3"] p
  obtain c t where ct: "decode sampleBrowser ''data:photo'' = Decoded c"
    "decode sampleBrowser template4 = Decoded t"
    "naturalWidth p = width (posterCanvas (newCall sampleBrowser (4 / 3)))"
    "naturalHeight p = height (posterCanvas (newCall sampleBrowser (4 / 3)))"
    "drawn (posterCall sampleBrowser ''data:photo'' template4 (4 / 3)) =
       [DrawImage (Some c) 0 0 (naturalWidth p) (naturalHeight p),
        DrawImage (Some t) 0 0 (naturalWidth p) (naturalHeight p)]"
    "\<And>x y q. x < naturalWidth p \<Longrightarrow> y < naturalHeight p \<Longrightarrow>
        stretched sampleBrowser t (naturalWidth p) (naturalHeight p) x y = Some q \<Longrightarrow>
        alpha q = 255 \<Longrightarrow> pixelAt p x y = q"
    by blast
  have c: "c = photo" and t: "t = overlay"
    using ct(1,2) by (simp_all add: sampleBrowser_def template4_def)
  have w: "naturalWidth p = 1600" and h: "naturalHeight p = 1200"
    using ct(3,4) by (simp_all add: newCall_def blankCanvas_def)
  have so: "stretched sampleBrowser overlay 1600 1200 10 0 = Some (RGBA 0 0 255 255)"
    by (simp add: stretched_def sampleBrowser_def nearestNeighbour_def overlay_def)
  have sp: "stretched sampleBrowser photo 1600 1200 10 0 = Some (RGBA 255 0 0 255)"
    by (simp add: stretched_def sampleBrowser_def nearestNeighbour_def photo_def solid_def)
  have "pixelAt p 10 0 = RGBA 0 0 255 255"
    by (rule ct(6)) (simp_all add: w h t so)
  moreover have n:
    "\<forall>p. createHighQualityPoster sampleBrowser ''data:photo'' ''data:missing'' (4 / 3) \<noteq> Resolved p"
    unfolding resolved_iff by (simp add: sampleBrowser_def template4_def template3_def)
  moreover from cropped_then_template [of sampleBrowser "''data:photo''" "''data:missing''" "4 / 3"] n
  have "drawn (posterCall sampleBrowser ''data:photo'' ''data:missing'' (4 / 3)) = []"
    by blast
  ultimately show ?thesis using p ct(5) so sp by (auto simp: c t w h)
qed

subsection \<open>A failed decode\<close>

text \<open>
  C4. If the cropped image or the template cannot be decoded, \<open>createHighQualityPoster\<close> is
  rejected with the error event of an image that failed (what the spec calls a
  \<open>DecodeError\<close>), whatever happens to the other image and in whichever order; it is not
  resolved, \<open>drawImage\<close> is never called, and the canvas stays as it was created.
\<close>

theorem decode_failure_rejects:
  "decode br cs = Undecodable \<or> decode br ts = Undecodable \<Longrightarrow>
     (\<exists>i. createHighQualityPoster br cs ts ar = Rejected (ErrorEvent i) \<and>
          decode br (case i of CroppedImage \<Rightarrow> cs | TemplateImage \<Rightarrow> ts) = Undecodable) \<and>
     drawn (posterCall br cs ts ar) = [] \<and>
     posterCanvas (posterCall br cs ts ar) = posterCanvas (newCall br ar)"
proof -
  assume a: "decode br cs = Undecodable \<or> decode br ts = Undecodable"
  then have "\<forall>p. createHighQualityPoster br cs ts ar \<noteq> Resolved p"
    unfolding resolved_iff by auto
  from unresolved_draws_nothing [OF this]
  have n: "drawn (posterCall br cs ts ar) = [] \<and>
     posterCanvas (posterCall br cs ts ar) = posterCanvas (newCall br ar)" .
  have "\<exists>i. createHighQualityPoster br cs ts ar = Rejected (ErrorEvent i) \<and>
          decode br (case i of CroppedImage \<Rightarrow> cs | TemplateImage \<Rightarrow> ts) = Undecodable"
    using a
    by (cases "decode br cs"; cases "decode br ts"; cases "templateFirst br cs ts")
       (auto simp: createHighQualityPoster_def posterCall_def schedule_def call_defs
             intro: exI [of _ CroppedImage] exI [of _ TemplateImage])
  with n show ?thesis by blast
qed

theorem decode_failure_rejects_witness:
  "decode sampleBrowser ''data:missing'' = Undecodable \<and>
   createHighQualityPoster sampleBrowser ''data:photo'' ''data:missing'' (4 / 3) =
     Rejected (ErrorEvent TemplateImage) \<and>
   drawn (posterCall sampleBrowser ''data:photo'' ''data:missing'' (4 / 3)) = []"
proof -
  have u: "decode sampleBrowser ''data:missing'' = Undecodable"
    by (simp add: sampleBrowser_def template4_def template3_def)
  have d: "decode sampleBrowser ''data:photo'' = Decoded photo"
    by (simp add: sampleBrowser_def)
  from decode_failure_rejects [of sampleBrowser "''data:photo''" "''data:missing''" "4 / 3"] u
  obtain i where i:
    "createHighQualityPoster sampleBrowser ''data:photo'' ''data:missing'' (4 / 3) =
       Rejected (ErrorEvent i)"
    "decode sampleBrowser (case i of CroppedImage \<Rightarrow> ''data:photo'' | TemplateImage \<Rightarrow> ''data:missing'')
       = Undecodable"
    "drawn (posterCall sampleBrowser ''data:photo'' ''data:missing'' (4 / 3)) = []"
    by blast
  from i(2) d have "i = TemplateImage" by (cases i) simp_all
  with i u show ?thesis by simp
qed

section \<open>Properties of export\<close>

lemma downloadLoop_all_resolved:
  assumes "\<forall>j. i \<le> j \<and> j < length completed \<longrightarrow>
     createHighQualityPoster br (asSrc (croppedImage (completed ! j))) tpl ar = Resolved (ds ! j)"
  shows "downloadLoop br tpl ar completed i =
     concat (map (\<lambda>j. [CreatePoster (asSrc (croppedImage (completed ! j))) tpl ar,
                        Click (''poster-'' @ toString (j + 1) @ ''.png'') (ds ! j),
                        Timeout 500]) [i..<length completed]) @ [SetIsProcessing False]"
  using assms
proof (induction br tpl ar completed i rule: downloadLoop.induct)
  case (1 br tpl ar completed i)
  show ?case
  proof (cases "i < length completed")
    case True
    with 1(2) have r: "createHighQualityPoster br (asSrc (croppedImage (completed ! i))) tpl ar
        = Resolved (ds ! i)" by simp
    have "downloadLoop br tpl ar completed (i + 1) =
       concat (map (\<lambda>j. [CreatePoster (asSrc (croppedImage (completed ! j))) tpl ar,
                        Click (''poster-'' @ toString (j + 1) @ ''.png'') (ds ! j),
                        Timeout 500]) [i + 1..<length completed]) @ [SetIsProcessing False]"
      using 1(2) by (intro 1(1) [OF True r]) simp
    then show ?thesis
      using True r by (subst downloadLoop.simps) (simp add: upt_conv_Cons)
  next
    case False
    then show ?thesis by (subst downloadLoop.simps) simp
  qed
qed

lemma composed_downloadLoop:
  "set (composed (downloadLoop br tpl ar completed i)) \<subseteq>
     (\<lambda>img. asSrc (croppedImage img)) ` set completed"
proof (induction br tpl ar completed i rule: downloadLoop.induct)
  case (1 br tpl ar completed i)
  show ?case
  proof (cases "i < length completed")
    case True
    show ?thesis
    proof (cases "createHighQualityPoster br (asSrc (croppedImage (completed ! i))) tpl ar")
      case Pending
      with True show ?thesis by (subst downloadLoop.simps) simp
    next
      case (Resolved d)
      from 1 [OF True Resolved] True Resolved show ?thesis
        by (subst downloadLoop.simps) simp
    next
      case (Rejected e)
      with True show ?thesis by (subst downloadLoop.simps) simp
    qed
  next
    case False
    then show ?thesis by (subst downloadLoop.simps) simp
  qed
qed

lemma truthy_Some: "truthy c \<Longrightarrow> \<exists>s. c = Some s \<and> s \<noteq> [] \<and> asSrc c = s"
  by (cases c) (simp_all add: truthy_def asSrc_def)

lemma composed_handleDownloadAll:
  "c \<in> set (composed (handleDownloadAll br st)) \<Longrightarrow>
     \<exists>img \<in> set (images st). croppedImage img = Some c"
proof -
  assume "c \<in> set (composed (handleDownloadAll br st))"
  then have "c \<in> set (composed (downloadLoop br (template st) (aspectRatio st) (completedImages st) 0))"
    by (simp add: handleDownloadAll_def split: if_splits)
  with composed_downloadLoop obtain img where "img \<in> set (completedImages st)" "c = asSrc (croppedImage img)"
    by blast
  then show ?thesis using truthy_Some [of "croppedImage img"]
    by (auto simp: completedImages_def)
qed

lemma find_in_set: "find P xs = Some x \<Longrightarrow> x \<in> set xs \<and> P x"
  by (induction xs) (auto split: if_splits)

lemma composed_handleDownloadSingle:
  "c \<in> set (composed (handleDownloadSingle br imageId st)) \<Longrightarrow>
     \<exists>img \<in> set (images st). id' img = imageId \<and> croppedImage img = Some c"
  by (auto simp: handleDownloadSingle_def split: option.splits if_splits promise.splits
      dest!: find_in_set truthy_Some)

lemma clicks_downloadLoop:
  "(name, d) \<in> set (clicks (downloadLoop br tpl ar completed i)) \<Longrightarrow>
     \<exists>img \<in> set completed. createHighQualityPoster br (asSrc (croppedImage img)) tpl ar = Resolved d"
proof (induction br tpl ar completed i rule: downloadLoop.induct)
  case (1 br tpl ar completed i)
  show ?case
  proof (cases "i < length completed")
    case True
    show ?thesis
    proof (cases "createHighQualityPoster br (asSrc (croppedImage (completed ! i))) tpl ar")
      case Pending
      with True 1(2) show ?thesis by (subst (asm) downloadLoop.simps) simp
    next
      case (Resolved d')
      from 1(2) True Resolved
      have "d = d' \<or> (name, d) \<in> set (clicks (downloadLoop br tpl ar completed (i + 1)))"
        by (subst (asm) downloadLoop.simps) auto
      then show ?thesis
      proof
        assume "d = d'"
        with True Resolved show ?thesis by (auto intro!: bexI [of _ "completed ! i"])
      next
        assume "(name, d) \<in> set (clicks (downloadLoop br tpl ar completed (i + 1)))"
        from 1(1) [OF True Resolved this] show ?thesis .
      qed
    next
      case (Rejected e)
      with True 1(2) show ?thesis by (subst (asm) downloadLoop.simps) simp
    qed
  next
    case False
    with 1(2) show ?thesis by (subst (asm) downloadLoop.simps) simp
  qed
qed

lemma clicks_handleDownloadAll:
  assumes "(name, d) \<in> set (clicks (handleDownloadAll br st))"
  shows "\<exists>img \<in> set (images st). \<exists>c. croppedImage img = Some c \<and>
     createHighQualityPoster br c (template st) (aspectRatio st) = Resolved d"
proof -
  from assms have "(name, d) \<in> set (clicks (downloadLoop br (template st) (aspectRatio st) (completedImages st) 0))"
    by (simp add: handleDownloadAll_def split: if_splits)
  from clicks_downloadLoop [OF this] obtain img where
    i: "img \<in> set (completedImages st)"
      "createHighQualityPoster br (asSrc (croppedImage img)) (template st) (aspectRatio st) = Resolved d"
    by blast
  from i(1) have "img \<in> set (images st)" "truthy (croppedImage img)"
    by (simp_all add: completedImages_def)
  with i(2) truthy_Some [of "croppedImage img"] show ?thesis by auto
qed

lemma clicks_handleDownloadSingle:
  "(name, d) \<in> set (clicks (handleDownloadSingle br imageId st)) \<Longrightarrow>
     \<exists>img \<in> set (images st). \<exists>c. croppedImage img = Some c \<and>
       createHighQualityPoster br c (template st) (aspectRatio st) = Resolved d"
  by (auto simp: handleDownloadSingle_def split: option.splits if_splits promise.splits
      dest!: find_in_set truthy_Some)

lemma clicks_append: "clicks (xs @ ys) = clicks xs @ clicks ys"
  by (induction xs rule: clicks.induct) simp_all

lemma clicks_rounds:
  "clicks (concat (map (\<lambda>j. [CreatePoster (a j) tpl ar, Click (n j) (d j), Timeout 500]) js)) =
     map (\<lambda>j. (n j, d j)) js"
  by (induction js) simp_all

text \<open>
  C7 (as amended). Batch export works through the items \<open>completedImages\<close> keeps, those whose
  cropped image is neither null nor the empty string, in list order. Provided each of their
  compositions resolves, the run is: processing on; then for the first, second, ... item in
  turn a call of \<open>createHighQualityPoster\<close> on its cropped image, the click that downloads the
  result as \<open>poster-1.png\<close>, \<open>poster-2.png\<close>, ..., and a wait of 500 ms, each before the next
  call starts; then processing off. With no such item nothing happens. Single export of an
  item with a cropped image whose composition resolves is one call and one click, named
  \<open>poster-<id>.png\<close>.
\<close>

theorem batch_export_in_order:
  assumes "length ds = length (completedImages st)"
    and "\<forall>j < length ds.
       createHighQualityPoster br (asSrc (croppedImage (completedImages st ! j))) (template st)
         (aspectRatio st) = Resolved (ds ! j)"
  shows "completedImages st = filter (\<lambda>img. truthy (croppedImage img)) (images st) \<and>
     handleDownloadAll br st =
       (if ds = [] then []
        else SetIsProcessing True #
             concat (map (\<lambda>j. [CreatePoster (asSrc (croppedImage (completedImages st ! j)))
                                   (template st) (aspectRatio st),
                                 Click (''poster-'' @ toString (j + 1) @ ''.png'') (ds ! j),
                                 Timeout 500]) [0..<length ds]) @
             [SetIsProcessing False]) \<and>
     clicks (handleDownloadAll br st) =
       map (\<lambda>j. (''poster-'' @ toString (j + 1) @ ''.png'', ds ! j)) [0..<length ds] \<and>
     (\<forall>imageId img d.
        find (\<lambda>img. id' img = imageId) (images st) = Some img \<and> truthy (croppedImage img) \<and>
        createHighQualityPoster br (asSrc (croppedImage img)) (template st) (aspectRatio st)
          = Resolved d \<longrightarrow>
        handleDownloadSingle br imageId st =
          [CreatePoster (asSrc (croppedImage img)) (template st) (aspectRatio st),
           Click (''poster-'' @ imageId @ ''.png'') d])"
proof -
  have loop: "downloadLoop br (template st) (aspectRatio st) (completedImages st) 0 =
     concat (map (\<lambda>j. [CreatePoster (asSrc (croppedImage (completedImages st ! j)))
                                   (template st) (aspectRatio st),
                                 Click (''poster-'' @ toString (j + 1) @ ''.png'') (ds ! j),
                                 Timeout 500]) [0..<length (completedImages st)]) @
             [SetIsProcessing False]"
    by (rule downloadLoop_all_resolved) (use assms in simp)
  have all: "handleDownloadAll br st =
       (if ds = [] then []
        else SetIsProcessing True #
             concat (map (\<lambda>j. [CreatePoster (asSrc (croppedImage (completedImages st ! j)))
                                   (template st) (aspectRatio st),
                                 Click (''poster-'' @ toString (j + 1) @ ''.png'') (ds ! j),
                                 Timeout 500]) [0..<length ds]) @
             [SetIsProcessing False])"
    using assms(1) by (cases ds) (auto simp add: handleDownloadAll_def loop)
  have "clicks (handleDownloadAll br st) =
       map (\<lambda>j. (''poster-'' @ toString (j + 1) @ ''.png'', ds ! j)) [0..<length ds]"
    unfolding all by (simp add: clicks_append clicks_rounds)
  moreover have "\<forall>imageId img d.
        find (\<lambda>img. id' img = imageId) (images st) = Some img \<and> truthy (croppedImage img) \<and>
        createHighQualityPoster br (asSrc (croppedImage img)) (template st) (aspectRatio st)
          = Resolved d \<longrightarrow>
        handleDownloadSingle br imageId st =
          [CreatePoster (asSrc (croppedImage img)) (template st) (aspectRatio st),
           Click (''poster-'' @ imageId @ ''.png'') d]"
    by (simp add: handleDownloadSingle_def)
  ultimately show ?thesis using all by (simp add: completedImages_def)
qed

lemma three: "[0..<3] = [0, 1, 2]"
  by (simp add: upt_rec)

theorem batch_export_in_order_witness:
  "\<exists>p. createHighQualityPoster sampleBrowser ''data:photo'' template4 (4 / 3) = Resolved p \<and>
     completedImages threeCommitted =
       [item ''a'' (Some ''data:photo''), item ''c'' (Some ''data:photo''),
        item ''d'' (Some ''data:photo'')] \<and>
     clicks (handleDownloadAll sampleBrowser threeCommitted) =
       [(''poster-1.png'', p), (''poster-2.png'', p), (''poster-3.png'', p)] \<and>
     handleDownloadSingle sampleBrowser ''c'' threeCommitted =
       [CreatePoster ''data:photo'' template4 (4 / 3), Click ''poster-c.png'' p]"
proof -
  from sample_resolves(1) obtain p where
    p: "createHighQualityPoster sampleBrowser ''data:photo'' template4 (4 / 3) = Resolved p" ..
  have c: "completedImages threeCommitted =
       [item ''a'' (Some ''data:photo''), item ''c'' (Some ''data:photo''),
        item ''d'' (Some ''data:photo'')]"
    by (simp add: completedImages_def threeCommitted_def truthy_def item_def)
  have tpl: "template threeCommitted = template4" and ar: "aspectRatio threeCommitted = 4 / 3"
    by (simp_all add: threeCommitted_def initialState_def)
  have l: "length [p, p, p] = length (completedImages threeCommitted)"
    by (simp add: c)
  have r: "\<forall>j < length [p, p, p].
       createHighQualityPoster sampleBrowser
         (asSrc (croppedImage (completedImages threeCommitted ! j))) (template threeCommitted)
         (aspectRatio threeCommitted) = Resolved ([p, p, p] ! j)"
  proof (intro allI impI)
    fix j assume "j < length [p, p, p]"
    then consider "j = 0" | "j = 1" | "j = 2" by fastforce
    then show "createHighQualityPoster sampleBrowser
         (asSrc (croppedImage (completedImages threeCommitted ! j))) (template threeCommitted)
         (aspectRatio threeCommitted) = Resolved ([p, p, p] ! j)"
      by cases (simp_all add: c item_def asSrc_def tpl ar p)
  qed
  have f: "find (\<lambda>img. id' img = ''c'') (images threeCommitted) = Some (item ''c'' (Some ''data:photo''))"
    by (simp add: threeCommitted_def item_def newImage_def)
  from batch_export_in_order [OF l r]
  have "clicks (handleDownloadAll sampleBrowser threeCommitted) =
       map (\<lambda>j. (''poster-'' @ toString (j + 1) @ ''.png'', [p, p, p] ! j)) [0..<length [p, p, p]]"
    and s: "\<And>imageId img d.
        find (\<lambda>img. id' img = imageId) (images threeCommitted) = Some img \<Longrightarrow>
        truthy (croppedImage img) \<Longrightarrow>
        createHighQualityPoster sampleBrowser (asSrc (croppedImage img)) (template threeCommitted)
          (aspectRatio threeCommitted) = Resolved d \<Longrightarrow>
        handleDownloadSingle sampleBrowser imageId threeCommitted =
          [CreatePoster (asSrc (croppedImage img)) (template threeCommitted) (aspectRatio threeCommitted),
           Click (''poster-'' @ imageId @ ''.png'') d]"
    by blast+
  then have k: "clicks (handleDownloadAll sampleBrowser threeCommitted) =
       [(''poster-1.png'', p), (''poster-2.png'', p), (''poster-3.png'', p)]"
    by (simp add: three toString.simps digitChar_def)
  have "handleDownloadSingle sampleBrowser ''c'' threeCommitted =
       [CreatePoster ''data:photo'' template4 (4 / 3), Click ''poster-c.png'' p]"
    using s [OF f, of p] p
    by (simp add: item_def truthy_def asSrc_def tpl ar)
  with p c k show ?thesis by blast
qed

text \<open>
  C7 as stated does not hold. With one cropped item and a template that fails to load, the
  composition is rejected, the \<open>await\<close> throws and nothing is downloaded, where the claim
  names \<open>poster-1.png\<close>. An item whose cropped image is the empty string is not null, yet
  the filter drops it and the export does nothing.
\<close>

theorem batch_export_counterexample:
  "claimedBatchNames oneCommitted = [''poster-1.png''] \<and>
   handleDownloadAll offlineBrowser oneCommitted =
     [SetIsProcessing True, CreatePoster ''data:photo'' template4 (4 / 3),
      Throw (ErrorEvent TemplateImage)] \<and>
   map fst (clicks (handleDownloadAll offlineBrowser oneCommitted)) \<noteq> claimedBatchNames oneCommitted \<and>
   claimedBatchNames emptyCrop = [''poster-1.png''] \<and>
   handleDownloadAll sampleBrowser emptyCrop = [] \<and>
   map fst (clicks (handleDownloadAll sampleBrowser emptyCrop)) \<noteq> claimedBatchNames emptyCrop"
proof -
  have a: "claimedBatchNames oneCommitted = [''poster-1.png'']"
    by (simp add: claimedBatchNames_def oneCommitted_def item_def posterName_def toString.simps
        digitChar_def)
  have r: "createHighQualityPoster offlineBrowser ''data:photo'' template4 (4 / 3) =
      Rejected (ErrorEvent TemplateImage)"
    by (simp add: createHighQualityPoster_def posterCall_def schedule_def offlineBrowser_def
        sampleBrowser_def template4_def call_defs)
  have b: "handleDownloadAll offlineBrowser oneCommitted =
     [SetIsProcessing True, CreatePoster ''data:photo'' template4 (4 / 3),
      Throw (ErrorEvent TemplateImage)]"
    by (simp add: handleDownloadAll_def completedImages_def oneCommitted_def item_def truthy_def
        downloadLoop.simps asSrc_def initialState_def r)
  have c: "claimedBatchNames emptyCrop = [''poster-1.png'']"
    by (simp add: claimedBatchNames_def emptyCrop_def item_def posterName_def toString.simps
        digitChar_def)
  have d: "handleDownloadAll sampleBrowser emptyCrop = []"
    by (simp add: handleDownloadAll_def completedImages_def emptyCrop_def item_def truthy_def)
  show ?thesis unfolding a b c d by simp
qed

text \<open>
  C8. Single export does nothing at all when no item has the requested id or the item's
  cropped image is null. Every call of \<open>createHighQualityPoster\<close> that single or batch export
  makes is on the cropped image of an item of the working set (for single export, the item
  with the requested id), and every download carries a poster composed from such a cropped
  image; the items a batch export works through all have a cropped image that is not null.
\<close>

theorem poster_only_from_cropped:
  "((find (\<lambda>img. id' img = imageId) (images st) = None \<or>
     (\<exists>img. find (\<lambda>img. id' img = imageId) (images st) = Some img \<and> croppedImage img = None)) \<longrightarrow>
       handleDownloadSingle br imageId st = []) \<and>
   (\<forall>c \<in> set (composed (handleDownloadSingle br imageId st)).
      \<exists>img \<in> set (images st). id' img = imageId \<and> croppedImage img = Some c) \<and>
   (\<forall>c \<in> set (composed (handleDownloadAll br st)).
      \<exists>img \<in> set (images st). croppedImage img = Some c) \<and>
   (\<forall>(name, d) \<in> set (clicks (handleDownloadSingle br imageId st) @ clicks (handleDownloadAll br st)).
      \<exists>img \<in> set (images st). \<exists>c. croppedImage img = Some c \<and>
        createHighQualityPoster br c (template st) (aspectRatio st) = Resolved d) \<and>
   (\<forall>img \<in> set (completedImages st). img \<in> set (images st) \<and> croppedImage img \<noteq> None)"
proof (intro conjI)
  show "(find (\<lambda>img. id' img = imageId) (images st) = None \<or>
     (\<exists>img. find (\<lambda>img. id' img = imageId) (images st) = Some img \<and> croppedImage img = None)) \<longrightarrow>
       handleDownloadSingle br imageId st = []"
    by (auto simp: handleDownloadSingle_def truthy_def)
  show "\<forall>c \<in> set (composed (handleDownloadSingle br imageId st)).
      \<exists>img \<in> set (images st). id' img = imageId \<and> croppedImage img = Some c"
    using composed_handleDownloadSingle by blast
  show "\<forall>c \<in> set (composed (handleDownloadAll br st)).
      \<exists>img \<in> set (images st). croppedImage img = Some c"
    using composed_handleDownloadAll by blast
  show "\<forall>(name, d) \<in> set (clicks (handleDownloadSingle br imageId st) @ clicks (handleDownloadAll br st)).
      \<exists>img \<in> set (images st). \<exists>c. croppedImage img = Some c \<and>
        createHighQualityPoster br c (template st) (aspectRatio st) = Resolved d"
    using clicks_handleDownloadSingle clicks_handleDownloadAll by fastforce
  show "\<forall>img \<in> set (completedImages st). img \<in> set (images st) \<and> croppedImage img \<noteq> None"
    by (auto simp: completedImages_def truthy_def split: option.splits)
qed

theorem poster_only_from_cropped_witness:
  "find (\<lambda>img. id' img = ''b'') (images threeCommitted) = Some (item ''b'' None) \<and>
   handleDownloadSingle sampleBrowser ''b'' threeCommitted = [] \<and>
   find (\<lambda>img. id' img = ''z'') (images threeCommitted) = None \<and>
   handleDownloadSingle sampleBrowser ''z'' threeCommitted = [] \<and>
   composed (handleDownloadSingle sampleBrowser ''c'' threeCommitted) = [''data:photo''] \<and>
   (\<exists>img \<in> set (images threeCommitted). id' img = ''c'' \<and> croppedImage img = Some ''data:photo'')"
proof -
  have b: "find (\<lambda>img. id' img = ''b'') (images threeCommitted) = Some (item ''b'' None)"
    by (simp add: threeCommitted_def item_def newImage_def)
  have z: "find (\<lambda>img. id' img = ''z'') (images threeCommitted) = None"
    by (simp add: threeCommitted_def item_def newImage_def)
  have n: "croppedImage (item ''b'' None) = None"
    by (simp add: item_def)
  have c: "composed (handleDownloadSingle sampleBrowser ''c'' threeCommitted) = [''data:photo'']"
    by (simp add: handleDownloadSingle_def threeCommitted_def item_def newImage_def truthy_def
        asSrc_def split: promise.split)
  from poster_only_from_cropped [of "''b''" threeCommitted sampleBrowser] b n
  have "handleDownloadSingle sampleBrowser ''b'' threeCommitted = []" by blast
  moreover from poster_only_from_cropped [of "''z''" threeCommitted sampleBrowser] z
  have "handleDownloadSingle sampleBrowser ''z'' threeCommitted = []" by blast
  moreover from poster_only_from_cropped [of "''c''" threeCommitted sampleBrowser] c
  have "\<exists>img \<in> set (images threeCommitted). id' img = ''c'' \<and> croppedImage img = Some ''data:photo''"
    by simp
  ultimately show ?thesis using b z c by simp
qed

section \<open>Properties of the crop extractor\<close>

text \<open>
  C5. For a source that decodes to a picture \<open>s\<close> and a rectangle \<open>r\<close> that keeps the bounds
  (0 \<le> x, 0 \<le> y, x + width \<le> width of \<open>s\<close>, y + height \<le> height of \<open>s\<close>, width and height
  positive), \<open>extractCrop\<close> resolves with a picture exactly \<open>r\<close>'s width wide and \<open>r\<close>'s height
  high whose pixel at \<open>(i, j)\<close> is the pixel of \<open>s\<close> at \<open>(x + i, y + j)\<close>, a position inside \<open>s\<close>:
  the rectangle's pixels, one for one.
\<close>

theorem crop_has_rectangle_size:
  "decode br u = Decoded s \<Longrightarrow> boundsInvariant s r \<Longrightarrow>
     (\<exists>out. extractCrop br (Some u) (Some r) = Resolved out \<and>
        int (naturalWidth out) = crop_width r \<and> int (naturalHeight out) = crop_height r \<and>
        (\<forall>i j. i < naturalWidth out \<longrightarrow> j < naturalHeight out \<longrightarrow>
           pixelAt out i j = pixelAt s (nat (crop_x r) + i) (nat (crop_y r) + j) \<and>
           nat (crop_x r) + i < naturalWidth s \<and> nat (crop_y r) + j < naturalHeight s))"
  by (auto simp: extractCrop_def boundsInvariant_def copyRegion_def)

theorem crop_has_rectangle_size_witness:
  "decode sourceBrowser ''data:source'' = Decoded (gradient 800 600) \<and>
   boundsInvariant (gradient 800 600) scenarioCrop \<and>
   (\<exists>out. extractCrop sourceBrowser (Some ''data:source'') (Some scenarioCrop) = Resolved out \<and>
      naturalWidth out = 400 \<and> naturalHeight out = 450 \<and>
      pixelAt out 0 0 = pixelAt (gradient 800 600) 100 50)"
proof -
  have d: "decode sourceBrowser ''data:source'' = Decoded (gradient 800 600)"
    by (simp add: sourceBrowser_def)
  have b: "boundsInvariant (gradient 800 600) scenarioCrop"
    by (simp add: boundsInvariant_def gradient_def scenarioCrop_def)
  from crop_has_rectangle_size [OF d b] obtain out where
    o: "extractCrop sourceBrowser (Some ''data:source'') (Some scenarioCrop) = Resolved out"
      "int (naturalWidth out) = crop_width scenarioCrop"
      "int (naturalHeight out) = crop_height scenarioCrop"
      "\<And>i j. i < naturalWidth out \<Longrightarrow> j < naturalHeight out \<Longrightarrow>
         pixelAt out i j =
           pixelAt (gradient 800 600) (nat (crop_x scenarioCrop) + i) (nat (crop_y scenarioCrop) + j)"
    by blast
  from o(2,3) have w: "naturalWidth out = 400" "naturalHeight out = 450"
    by (simp_all add: scenarioCrop_def)
  from o(4) [of 0 0] w have "pixelAt out 0 0 = pixelAt (gradient 800 600) 100 50"
    by (simp add: scenarioCrop_def)
  with d b o(1) w show ?thesis by blast
qed

text \<open>
  C6. \<open>extractCrop\<close> is rejected with \<open>InvalidRectangleError\<close> for a null rectangle and for
  one with a negative x or y or a width or height that is not positive, whatever the source;
  and for every rectangle that breaks the bounds of a source that decodes, which adds the
  rectangles whose extent goes beyond the picture. In none of these cases does it resolve
  with a picture.
\<close>

theorem invalid_rectangle_rejected:
  "((pixelCrop = None \<or>
     (\<exists>r. pixelCrop = Some r \<and>
        (crop_x r < 0 \<or> crop_y r < 0 \<or> crop_width r \<le> 0 \<or> crop_height r \<le> 0))) \<longrightarrow>
      extractCrop br imageSrc pixelCrop = Rejected InvalidRectangleError) \<and>
   (decode br u = Decoded s \<and> \<not> boundsInvariant s r \<longrightarrow>
      extractCrop br (Some u) (Some r) = Rejected InvalidRectangleError) \<and>
   ((pixelCrop = None \<or> (\<exists>r. pixelCrop = Some r \<and> (\<forall>s. \<not> boundsInvariant s r)) \<or>
     (\<exists>r s. pixelCrop = Some r \<and> imageSrc = Some u \<and> decode br u = Decoded s \<and>
        \<not> boundsInvariant s r)) \<longrightarrow>
      (\<forall>out. extractCrop br imageSrc pixelCrop \<noteq> Resolved out))"
  by (auto simp: extractCrop_def boundsInvariant_def split: option.splits outcome.splits)

theorem invalid_rectangle_rejected_witness:
  "extractCrop sourceBrowser (Some ''data:source'') None = Rejected InvalidRectangleError \<and>
   extractCrop sourceBrowser (Some ''data:source'') (Some (scenarioCrop\<lparr>crop_x := - 1\<rparr>)) =
     Rejected InvalidRectangleError \<and>
   extractCrop sourceBrowser (Some ''data:source'') (Some (scenarioCrop\<lparr>crop_height := 0\<rparr>)) =
     Rejected InvalidRectangleError \<and>
   decode sourceBrowser ''data:source'' = Decoded (gradient 800 600) \<and>
   \<not> boundsInvariant (gradient 800 600) overhangingCrop \<and>
   extractCrop sourceBrowser (Some ''data:source'') (Some overhangingCrop) =
     Rejected InvalidRectangleError"
proof -
  have d: "decode sourceBrowser ''data:source'' = Decoded (gradient 800 600)"
    by (simp add: sourceBrowser_def)
  have b: "\<not> boundsInvariant (gradient 800 600) overhangingCrop"
    by (simp add: boundsInvariant_def gradient_def overhangingCrop_def)
  have "extractCrop sourceBrowser (Some ''data:source'') None = Rejected InvalidRectangleError"
    using invalid_rectangle_rejected [of None sourceBrowser "Some ''data:source''"] by simp
  moreover have "extractCrop sourceBrowser (Some ''data:source'') (Some (scenarioCrop\<lparr>crop_x := - 1\<rparr>)) =
     Rejected InvalidRectangleError"
    using invalid_rectangle_rejected [of "Some (scenarioCrop\<lparr>crop_x := - 1\<rparr>)" sourceBrowser
        "Some ''data:source''"] by simp
  moreover have "extractCrop sourceBrowser (Some ''data:source'') (Some (scenarioCrop\<lparr>crop_height := 0\<rparr>)) =
     Rejected InvalidRectangleError"
    using invalid_rectangle_rejected [of "Some (scenarioCrop\<lparr>crop_height := 0\<rparr>)" sourceBrowser
        "Some ''data:source''"] by simp
  moreover have "extractCrop sourceBrowser (Some ''data:source'') (Some overhangingCrop) =
     Rejected InvalidRectangleError"
    using invalid_rectangle_rejected [where br = sourceBrowser and u = "''data:source''"
        and s = "gradient 800 600" and r = overhangingCrop] d b by blast
  ultimately show ?thesis using d b by blast
qed

section \<open>Properties of the working set\<close>

lemma map_enumerate_update:
  "map (\<lambda>(index, img). if int index = int k then f img else img) (enumerate n xs) =
     (if n \<le> k \<and> k < n + length xs then xs[k - n := f (xs ! (k - n))] else xs)"
proof (induction xs arbitrary: n)
  case Nil
  then show ?case by simp
next
  case (Cons x xs)
  show ?case
  proof (cases "k = n")
    case True
    then show ?thesis using Cons [of "Suc n"] by simp
  next
    case False
    show ?thesis
    proof (cases "n < k")
      case True
      then have "k - n = Suc (k - Suc n)" by simp
      with True show ?thesis using Cons [of "Suc n"] by simp
    next
      case False
      with \<open>k \<noteq> n\<close> show ?thesis using Cons [of "Suc n"] by simp
    qed
  qed
qed

lemma setCropped_update:
  "k < length (images st) \<Longrightarrow>
     images (setCropped (int k) c area st) =
       (images st)[k := (images st ! k)\<lparr>croppedImage := Some c, ImageData.croppedAreaPixels := area\<rparr>]"
  using map_enumerate_update [of k _ 0 "images st"] by (simp add: setCropped_def)

text \<open>
  C10. Selecting another item sets the active index and nothing else: the list of items and
  the session's crop position, zoom and reported rectangle are as before. So after the
  widget has reported a rectangle \<open>area\<close>, whichever item was active then, and the user has
  selected item \<open>k\<close>, \<open>handleCrop\<close> calls \<open>getCroppedImg\<close> with the source of item \<open>k\<close> and that
  same \<open>area\<close>, and when the call resolves, item \<open>k\<close>, and no other, gets the result and
  \<open>area\<close>.
\<close>

theorem switching_keeps_crop_state:
  "setCurrentImageIndex j st = st\<lparr>currentImageIndex := j\<rparr> \<and>
   images (setCurrentImageIndex j st) = images st \<and>
   app.crop (setCurrentImageIndex j st) = app.crop st \<and>
   app.zoom (setCurrentImageIndex j st) = app.zoom st \<and>
   app.croppedAreaPixels (setCurrentImageIndex j st) = app.croppedAreaPixels st \<and>
   (k < length (images st) \<longrightarrow>
      cropRequest (setCurrentImageIndex (int k) st) =
        Some (src (images st ! k), app.croppedAreaPixels st) \<and>
      cropRequest (setCurrentImageIndex (int k) (onCropComplete area st)) =
        Some (src (images st ! k), area) \<and>
      (\<forall>c. g (src (images st ! k)) area = Resolved c \<longrightarrow>
         images (handleCrop g (setCurrentImageIndex (int k) (onCropComplete area st))) =
           (images st)[k := (images st ! k)\<lparr>croppedImage := Some c,
                                             ImageData.croppedAreaPixels := area\<rparr>]))"
proof -
  have "images (handleCrop g (setCurrentImageIndex (int k) (onCropComplete area st))) =
           (images st)[k := (images st ! k)\<lparr>croppedImage := Some c,
                                             ImageData.croppedAreaPixels := area\<rparr>]"
    if "k < length (images st)" "g (src (images st ! k)) area = Resolved c" for c
    using that setCropped_update [of k "setCurrentImageIndex (int k) (onCropComplete area st)" c area]
    by (simp add: handleCrop_def cropRequest_def setCurrentImageIndex_def onCropComplete_def
        elementAt_def)
  then show ?thesis
    by (simp add: setCurrentImageIndex_def cropRequest_def onCropComplete_def elementAt_def)
qed

theorem switching_keeps_crop_state_witness:
  "currentImageIndex twoUploaded = 0 \<and>
   cropRequest (setCurrentImageIndex 1 (onCropComplete (Some scenarioCrop) twoUploaded)) =
     Some (''data:second'', Some scenarioCrop) \<and>
   images (handleCrop alwaysCropped
             (setCurrentImageIndex 1 (onCropComplete (Some scenarioCrop) twoUploaded))) =
     [newImage ''a'' ''data:first'',
      (newImage ''b'' ''data:second'')\<lparr>croppedImage := Some ''data:cropped'',
                                        ImageData.croppedAreaPixels := Some scenarioCrop\<rparr>]"
proof -
  have l: "1 < length (images twoUploaded)"
    by (simp add: twoUploaded_def)
  have g: "alwaysCropped (src (images twoUploaded ! 1)) (Some scenarioCrop) = Resolved ''data:cropped''"
    by (simp add: alwaysCropped_def)
  from switching_keeps_crop_state [of 1 twoUploaded 1 "Some scenarioCrop" alwaysCropped] l g
  have "cropRequest (setCurrentImageIndex (int 1) (onCropComplete (Some scenarioCrop) twoUploaded)) =
        Some (src (images twoUploaded ! 1), Some scenarioCrop)"
    and "images (handleCrop alwaysCropped
             (setCurrentImageIndex (int 1) (onCropComplete (Some scenarioCrop) twoUploaded))) =
           (images twoUploaded)[1 := (images twoUploaded ! 1)\<lparr>croppedImage := Some ''data:cropped'',
                                             ImageData.croppedAreaPixels := Some scenarioCrop\<rparr>]"
    by blast+
  then show ?thesis
    by (simp add: twoUploaded_def newImage_def)
qed

lemma selectionValid_initialState: "selectionValid initialState"
  by (simp add: selectionValid_def initialState_def)

lemma selectionValid_readerLoads:
  "selectionValid st \<Longrightarrow> selectionValid (readerLoads n acc loads st)"
proof (induction loads arbitrary: acc st)
  case Nil
  then show ?case by simp
next
  case (Cons l loads)
  obtain now index result where l: "l = (now, index, result)" by (cases l)
  show ?case
    unfolding l readerLoads.simps Let_def
    by (rule Cons.IH) (use Cons.prems in \<open>simp add: selectionValid_def\<close>)
qed

lemma selectionValid_handleUpload:
  "selectionValid st \<Longrightarrow> selectionValid (handleUpload files st)"
  by (auto simp: handleUpload_def selectionValid_def split: option.splits
      intro!: selectionValid_readerLoads [unfolded selectionValid_def])

lemma selectionValid_handleCameraCapture:
  "selectionValid st \<Longrightarrow> selectionValid (handleCameraCapture file (images st) st)"
  by (simp add: handleCameraCapture_def selectionValid_def split: option.splits prod.splits)

lemma selectionValid_setCurrentImageIndex:
  "k < length (images st) \<Longrightarrow> selectionValid (setCurrentImageIndex (int k) st)"
  by (simp add: setCurrentImageIndex_def selectionValid_def)

lemma selectionValid_handleCrop:
  "selectionValid st \<Longrightarrow> selectionValid (handleCrop g st)"
  by (simp add: handleCrop_def setCropped_def selectionValid_def
      split: option.splits prod.splits promise.splits)

lemma selectionValid_removeImage:
  assumes "selectionValid st"
    and "currentImageIndex st = - 1 \<or> (\<exists>img \<in> set (images st). id' img \<noteq> imageId)"
  shows "selectionValid (removeImage imageId st)"
proof -
  from assms(2) have "currentImageIndex st = - 1 \<or> filter (\<lambda>img. id' img \<noteq> imageId) (images st) \<noteq> []"
    by (auto simp: filter_empty_conv)
  with assms(1) show ?thesis
    by (auto simp: removeImage_def selectionValid_def Let_def)
qed

lemma removeImage_all:
  assumes "selectionValid st" "currentImageIndex st \<noteq> - 1"
    and "\<forall>img \<in> set (images st). id' img = imageId"
  shows "images (removeImage imageId st) = [] \<and> currentImageIndex (removeImage imageId st) = 0 \<and>
     \<not> selectionValid (removeImage imageId st)"
proof -
  from assms(3) have "filter (\<lambda>img. id' img \<noteq> imageId) (images st) = []"
    by (simp add: filter_empty_conv)
  with assms(1,2) show ?thesis
    by (simp add: removeImage_def selectionValid_def Let_def)
qed

text \<open>
  C9 fails in \<open>removeImage\<close>. Uploading one file gives a list of one item with the active
  index 0; removing that item leaves the list empty and the index at 0, set by
  \<open>Math.max(0, filtered.length - 1)\<close>: neither \<open>-1\<close> nor the index of an item, and the
  current item read through it is absent. The other operations keep the index valid, as
  does \<open>removeImage\<close> while an item remains.
\<close>

theorem removeImage_leaves_dangling_index:
  "images uploadedOne = [newImage ''image-1-0'' ''data:source''] \<and>
   currentImageIndex uploadedOne = 0 \<and>
   selectionValid uploadedOne \<and>
   images (removeImage ''image-1-0'' uploadedOne) = [] \<and>
   currentImageIndex (removeImage ''image-1-0'' uploadedOne) = 0 \<and>
   \<not> selectionValid (removeImage ''image-1-0'' uploadedOne) \<and>
   currentImage (removeImage ''image-1-0'' uploadedOne) = None"
proof -
  have u: "uploadedOne =
      initialState\<lparr>images := [newImage ''image-1-0'' ''data:source''], currentImageIndex := 0\<rparr>"
    by (simp add: uploadedOne_def handleUpload_def initialState_def toString.simps digitChar_def)
  show ?thesis
    by (simp add: u removeImage_def selectionValid_def currentImage_def elementAt_def newImage_def
        initialState_def)
qed

end
